theory Spec2Isabelle
  imports Complex_Main
begin

section \<open>JavaScript numbers\<close>

text \<open>
  Every number of \<^verbatim>\<open>App.js\<close> is an IEEE 754 binary64 value. A finite one is
  represented by the real number it denotes, and every arithmetic operation
  rounds its exact result to the nearest representable value, ties to the even
  significand. The two zeros are both \<open>Fin 0\<close>: the program never divides by a
  zero where a claim applies, and its comparisons, \<^verbatim>\<open>Math.abs\<close>,
  \<^verbatim>\<open>Math.max\<close> against \<open>0.1\<close> and \<^verbatim>\<open>toFixed\<close> do not tell them apart.
\<close>

datatype jsnum = Fin real | PInf | NInf | NaN

definition rne :: "real \<Rightarrow> int" where
  "rne x = (let f = \<lfloor>x\<rfloor>; r = x - of_int f in
     if r < 1/2 then f else if 1/2 < r then f + 1 else if even f then f else f + 1)"

function expo_up :: "int \<Rightarrow> real \<Rightarrow> int" where
  "expo_up e x = (if x < 2 \<or> 1024 \<le> e then e else expo_up (e + 1) (x / 2))"
  by pat_completeness auto
termination
  by (relation "measure (\<lambda>(e, x). nat (1024 - e))") auto

function expo_down :: "int \<Rightarrow> real \<Rightarrow> int" where
  "expo_down e x = (if 1 \<le> x \<or> e \<le> - 1022 then e else expo_down (e - 1) (2 * x))"
  by pat_completeness auto
termination
  by (relation "measure (\<lambda>(e, x). nat (e + 1022))") auto

text \<open>
  \<open>binade x\<close> is the exponent of the binade of a positive \<open>x\<close>: the \<open>e\<close> with
  \<open>2^e \<le> x < 2^(e+1)\<close>, kept within \<open>-1022\<close> (below it the values are
  subnormal and share the spacing \<open>2^-1074\<close>) and \<open>1024\<close> (where every result
  overflows).
\<close>

definition binade :: "real \<Rightarrow> int" where
  "binade x = (if 1 \<le> x then expo_up 0 x else expo_down 0 x)"

definition ulp :: "real \<Rightarrow> real" where
  "ulp x = 2 powi (binade \<bar>x\<bar> - 52)"

definition rnd :: "real \<Rightarrow> real" where
  "rnd x = sgn x * of_int (rne (\<bar>x\<bar> / ulp x)) * ulp x"

definition is_double :: "real \<Rightarrow> bool" where
  "is_double x \<longleftrightarrow> \<bar>x\<bar> < 2 ^ 1024 \<and> rnd x = x"

definition to_double :: "real \<Rightarrow> jsnum" where
  "to_double x = (let y = rnd x in
     if 2 ^ 1024 \<le> y then PInf else if y \<le> - (2 ^ 1024) then NInf else Fin y)"

text \<open>A numeric literal of the source denotes the double nearest to its decimal value.\<close>

definition lit :: "real \<Rightarrow> jsnum" where
  "lit x = to_double x"

fun js_neg :: "jsnum \<Rightarrow> jsnum" where
  "js_neg (Fin x) = Fin (- x)"
| "js_neg PInf = NInf"
| "js_neg NInf = PInf"
| "js_neg NaN = NaN"

fun js_add :: "jsnum \<Rightarrow> jsnum \<Rightarrow> jsnum" where
  "js_add (Fin x) (Fin y) = to_double (x + y)"
| "js_add NaN _ = NaN"
| "js_add _ NaN = NaN"
| "js_add PInf NInf = NaN"
| "js_add NInf PInf = NaN"
| "js_add PInf _ = PInf"
| "js_add _ PInf = PInf"
| "js_add NInf _ = NInf"
| "js_add _ NInf = NInf"

definition js_sub :: "jsnum \<Rightarrow> jsnum \<Rightarrow> jsnum" where
  "js_sub a b = js_add a (js_neg b)"

fun js_mul :: "jsnum \<Rightarrow> jsnum \<Rightarrow> jsnum" where
  "js_mul (Fin x) (Fin y) = to_double (x * y)"
| "js_mul NaN _ = NaN"
| "js_mul _ NaN = NaN"
| "js_mul PInf (Fin y) = (if y = 0 then NaN else if 0 < y then PInf else NInf)"
| "js_mul NInf (Fin y) = (if y = 0 then NaN else if 0 < y then NInf else PInf)"
| "js_mul (Fin x) PInf = (if x = 0 then NaN else if 0 < x then PInf else NInf)"
| "js_mul (Fin x) NInf = (if x = 0 then NaN else if 0 < x then NInf else PInf)"
| "js_mul PInf PInf = PInf"
| "js_mul NInf NInf = PInf"
| "js_mul PInf NInf = NInf"
| "js_mul NInf PInf = NInf"

fun js_div :: "jsnum \<Rightarrow> jsnum \<Rightarrow> jsnum" where
  "js_div (Fin x) (Fin y) =
     (if y = 0 then (if x = 0 then NaN else if 0 < x then PInf else NInf)
      else to_double (x / y))"
| "js_div NaN _ = NaN"
| "js_div _ NaN = NaN"
| "js_div (Fin x) PInf = Fin 0"
| "js_div (Fin x) NInf = Fin 0"
| "js_div PInf (Fin y) = (if 0 \<le> y then PInf else NInf)"
| "js_div NInf (Fin y) = (if 0 \<le> y then NInf else PInf)"
| "js_div _ _ = NaN"

text \<open>The comparison \<^verbatim>\<open>a < b\<close>; \<^verbatim>\<open>a > b\<close> is \<open>js_lt b a\<close>. A NaN operand makes it false.\<close>

fun js_lt :: "jsnum \<Rightarrow> jsnum \<Rightarrow> bool" where
  "js_lt (Fin x) (Fin y) = (x < y)"
| "js_lt NaN _ = False"
| "js_lt _ NaN = False"
| "js_lt _ NInf = False"
| "js_lt PInf _ = False"
| "js_lt NInf _ = True"
| "js_lt _ PInf = True"

definition js_gt :: "jsnum \<Rightarrow> jsnum \<Rightarrow> bool" where
  "js_gt a b = js_lt b a"

fun Math_abs :: "jsnum \<Rightarrow> jsnum" where
  "Math_abs (Fin x) = Fin \<bar>x\<bar>"
| "Math_abs PInf = PInf"
| "Math_abs NInf = PInf"
| "Math_abs NaN = NaN"

fun Math_max :: "jsnum \<Rightarrow> jsnum \<Rightarrow> jsnum" where
  "Math_max (Fin x) (Fin y) = Fin (max x y)"
| "Math_max NaN _ = NaN"
| "Math_max _ NaN = NaN"
| "Math_max PInf _ = PInf"
| "Math_max _ PInf = PInf"
| "Math_max NInf b = b"
| "Math_max a NInf = a"

subsection \<open>toFixed and parseFloat\<close>

text \<open>
  \<^verbatim>\<open>x.toFixed(f)\<close> yields, for a finite \<open>x\<close> of magnitude below \<open>10^21\<close>, the
  decimal numeral with exactly \<open>f\<close> fraction digits of the integer \<open>n\<close> for which
  \<open>n / 10^f\<close> is nearest to \<open>\<bar>x\<bar>\<close>, the larger \<open>n\<close> at a tie, behind a minus sign when
  \<open>x < 0\<close>. That string is kept in structured form, \<open>Fixed neg n f\<close>, and
  \<open>fixed_string\<close> spells its characters. For every other \<open>x\<close> the result is the
  plain \<^verbatim>\<open>Number::toString\<close> of \<open>x\<close>, kept as \<open>NumToString x\<close>.
\<close>

datatype numstr = Fixed bool nat nat | NumToString jsnum

definition toFixed :: "nat \<Rightarrow> jsnum \<Rightarrow> numstr" where
  "toFixed f v = (case v of
     Fin x \<Rightarrow> if 10 ^ 21 \<le> \<bar>x\<bar> then NumToString v
              else Fixed (x < 0) (nat \<lfloor>\<bar>x\<bar> * 10 ^ f + 1/2\<rfloor>) f
   | _ \<Rightarrow> NumToString v)"



text \<open>
  \<^verbatim>\<open>parseFloat\<close> reads a \<open>Fixed\<close> numeral back as the double nearest to its
  decimal value, and reads the \<^verbatim>\<open>Number::toString\<close> of a number back as that
  number.
\<close>

fun parseFloat :: "numstr \<Rightarrow> jsnum" where
  "parseFloat (Fixed neg n f) = to_double ((if neg then - 1 else 1) * real n / 10 ^ f)"
| "parseFloat (NumToString v) = v"

section \<open>The environment: clock, time zone, Math.sin and Math.random\<close>

text \<open>
  \<open>now\<close> is the time value of \<^verbatim>\<open>new Date()\<close>, in milliseconds since the epoch.
  \<open>tza_utc t\<close> is the offset of local time from UTC at the UTC instant \<open>t\<close>, and
  \<open>tza_local t\<close> the offset in force at the local time \<open>t\<close> (ECMAScript's
  \<^verbatim>\<open>LocalTZA(t, true)\<close> and \<^verbatim>\<open>LocalTZA(t, false)\<close>). \<open>msin\<close> is the host's
  \<^verbatim>\<open>Math.sin\<close> on finite arguments, which ECMAScript leaves to the
  implementation. \<open>random k\<close> is the value of the \<open>k\<close>-th call of
  \<^verbatim>\<open>Math.random\<close>; the number of calls made so far is threaded through the
  functions that draw.
\<close>

record env =
  now :: int
  tza_utc :: "int \<Rightarrow> int"
  tza_local :: "int \<Rightarrow> int"
  msin :: "real \<Rightarrow> real"
  random :: "nat \<Rightarrow> real"

fun Math_sin :: "env \<Rightarrow> jsnum \<Rightarrow> jsnum" where
  "Math_sin E (Fin x) = Fin (msin E x)"
| "Math_sin E _ = NaN"

definition Math_random :: "env \<Rightarrow> nat \<Rightarrow> jsnum" where
  "Math_random E k = Fin (random E k)"

subsection \<open>Date objects\<close>

text \<open>
  A Date holds a time value, or NaN (\<open>None\<close>) when it is invalid.
\<close>

definition msPerDay :: int where
  "msPerDay = 86400000"

definition maxTime :: int where
  "maxTime = 8640000000000000"

definition TimeClip :: "int \<Rightarrow> int option" where
  "TimeClip t = (if maxTime < \<bar>t\<bar> then None else Some t)"

definition Day :: "int \<Rightarrow> int" where
  "Day t = t div msPerDay"

definition TimeWithinDay :: "int \<Rightarrow> int" where
  "TimeWithinDay t = t mod msPerDay"

definition MakeDate :: "int \<Rightarrow> int \<Rightarrow> int" where
  "MakeDate day time = day * msPerDay + time"

definition LocalTime :: "env \<Rightarrow> int \<Rightarrow> int" where
  "LocalTime E t = t + tza_utc E t"

definition UTC :: "env \<Rightarrow> int \<Rightarrow> int" where
  "UTC E t = t - tza_local E t"

text \<open>
  \<^verbatim>\<open>date.setDate(date.getDate() - i)\<close>. With \<open>t\<close> the local time of the Date,
  ECMAScript sets the time value to
  \<^verbatim>\<open>TimeClip(UTC(MakeDate(MakeDay(YearFromTime(t), MonthFromTime(t), DateFromTime(t) - i), TimeWithinDay(t))))\<close>,
  and \<^verbatim>\<open>MakeDay(y, m, d)\<close> is the day number of the first of the month plus
  \<open>d - 1\<close>, hence here \<open>Day t - i\<close>.
\<close>

definition setDate_back :: "env \<Rightarrow> int \<Rightarrow> int option \<Rightarrow> int option" where
  "setDate_back E i d = (case d of
     None \<Rightarrow> None
   | Some tv \<Rightarrow> (let t = LocalTime E tv
                in TimeClip (UTC E (MakeDate (Day t - i) (TimeWithinDay t)))))"

datatype error = RangeError

text \<open>
  \<^verbatim>\<open>date.toISOString().split('T')[0]\<close>: the UTC calendar date of the time value,
  represented by its day number since the epoch, which the string
  \<^verbatim>\<open>YYYY-MM-DD\<close> spells. An invalid Date raises RangeError.
\<close>

definition toISOString_date :: "int option \<Rightarrow> error + int" where
  "toISOString_date d = (case d of None \<Rightarrow> Inl RangeError | Some tv \<Rightarrow> Inr (Day tv))"

text \<open>
  \<^verbatim>\<open>date.toLocaleDateString('en-US', {month: 'short', day: 'numeric'})\<close> shows the
  month and day of the local calendar date, represented by its day number.
\<close>

definition toLocaleDateString_day :: "env \<Rightarrow> int \<Rightarrow> int" where
  "toLocaleDateString_day E tv = Day (LocalTime E tv)"

section \<open>The mock historical data generator\<close>

record point =
  date :: int
  rate :: jsnum
  displayDate :: int

text \<open>
  The body of the loop of \<open>generateMockHistoricalData\<close> at the counter \<open>i\<close>, with
  \<open>k\<close> the number of calls of \<^verbatim>\<open>Math.random\<close> made before it: the point it
  pushes, or the error \<^verbatim>\<open>toISOString\<close> raises.
\<close>

definition gen_point :: "env \<Rightarrow> jsnum \<Rightarrow> int \<Rightarrow> nat \<Rightarrow> error + point" where
  "gen_point E baseRate i k =
     (let d = setDate_back E i (Some (now E));
          fluctuation = js_mul (js_sub (js_add (Math_sin E (js_mul (Fin (of_int i)) (lit (1/10))))
                                               (Math_random E k))
                                       (lit (5/10)))
                               (lit (5/100));
          r = Math_max (lit (1/10)) (js_add baseRate fluctuation)
      in case toISOString_date d of
           Inl e \<Rightarrow> Inl e
         | Inr isoDate \<Rightarrow>
             Inr \<lparr>date = isoDate, rate = parseFloat (toFixed 4 r),
                  displayDate = toLocaleDateString_day E (the d)\<rparr>)"

text \<open>
  The loop \<^verbatim>\<open>for (let i = days; i >= 0; i--)\<close>. The counter is an integer; an
  error leaves the loop and the function.
\<close>

function gen_loop :: "env \<Rightarrow> jsnum \<Rightarrow> int \<Rightarrow> nat \<Rightarrow> point list \<Rightarrow> error + (point list \<times> nat)" where
  "gen_loop E baseRate i k data =
     (if 0 \<le> i then
        (case gen_point E baseRate i k of
           Inl e \<Rightarrow> Inl e
         | Inr p \<Rightarrow> gen_loop E baseRate (i - 1) (Suc k) (data @ [p]))
      else Inr (data, k))"
  by pat_completeness auto
termination
  by (relation "measure (\<lambda>(E, b, i, k, data). nat (i + 1))") auto

declare gen_loop.simps [simp del]

text \<open>The base rate, from the first call of \<^verbatim>\<open>Math.random\<close>.\<close>

definition gen_baseRate :: "env \<Rightarrow> nat \<Rightarrow> jsnum" where
  "gen_baseRate E k = js_add (lit (85/100)) (js_mul (Math_random E k) (lit (3/10)))"

definition generateMockHistoricalData :: "env \<Rightarrow> int \<Rightarrow> nat \<Rightarrow> error + (point list \<times> nat)" where
  "generateMockHistoricalData E days k =
     (let baseRate = gen_baseRate E k
      in gen_loop E baseRate days (Suc k) [])"

section \<open>The component state and its operations\<close>

record state =
  amount :: jsnum
  fromCurrency :: string
  toCurrency :: string
  exchangeRate :: "jsnum option"
  convertedAmount :: "jsnum option"
  loading :: bool
  historicalData :: "point list"
  chartPeriod :: string
  lastUpdated :: "int option"

definition initial_state :: state where
  "initial_state = \<lparr>amount = Fin 100, fromCurrency = ''USD'', toCurrency = ''EUR'',
     exchangeRate = None, convertedAmount = None, loading = False, historicalData = [],
     chartPeriod = ''30d'', lastUpdated = None\<rparr>"

text \<open>The mock rate of \<open>fetchExchangeRate\<close>, from one call of \<^verbatim>\<open>Math.random\<close>.\<close>

definition mockRate :: "env \<Rightarrow> nat \<Rightarrow> jsnum" where
  "mockRate E k = js_add (lit (5/10)) (js_mul (Math_random E k) (lit (15/10)))"

text \<open>
  \<open>fetchExchangeRate\<close>, run to completion on the state of the render that
  called it; the delay of 500 ms is not modelled.
\<close>

definition fetchExchangeRate :: "env \<Rightarrow> nat \<Rightarrow> state \<Rightarrow> state \<times> nat" where
  "fetchExchangeRate E k s =
     (s\<lparr>exchangeRate := Some (mockRate E k),
        convertedAmount := Some (js_mul (amount s) (mockRate E k)),
        lastUpdated := Some (now E),
        loading := False\<rparr>, Suc k)"

text \<open>A number is truthy unless it is a zero or NaN; \<^verbatim>\<open>null\<close> is falsy.\<close>

fun truthy :: "jsnum option \<Rightarrow> bool" where
  "truthy None = False"
| "truthy (Some (Fin x)) = (x \<noteq> 0)"
| "truthy (Some NaN) = False"
| "truthy (Some _) = True"

text \<open>The effect on \<^verbatim>\<open>[amount, exchangeRate]\<close>.\<close>

definition recompute_effect :: "state \<Rightarrow> state" where
  "recompute_effect s =
     (if truthy (exchangeRate s)
      then s\<lparr>convertedAmount := Some (js_mul (amount s) (the (exchangeRate s)))\<rparr>
      else s)"

text \<open>The window of \<open>loadHistoricalData\<close>, from the chart period.\<close>

definition period_days :: "string \<Rightarrow> int" where
  "period_days p = (if p = ''7d'' then 7 else if p = ''30d'' then 30 else 90)"

definition loadHistoricalData :: "env \<Rightarrow> nat \<Rightarrow> state \<Rightarrow> error + (state \<times> nat)" where
  "loadHistoricalData E k s =
     (let days = period_days (chartPeriod s)
      in case generateMockHistoricalData E days k of
           Inl e \<Rightarrow> Inl e
         | Inr (data, k') \<Rightarrow> Inr (s\<lparr>historicalData := data\<rparr>, k'))"

definition handleSwapCurrencies :: "state \<Rightarrow> state" where
  "handleSwapCurrencies s = s\<lparr>fromCurrency := toCurrency s, toCurrency := fromCurrency s\<rparr>"

subsection \<open>calculateTrend\<close>

datatype jsval = VNum jsnum | VStr numstr

record trend_result =
  trend :: string
  percentage :: jsval

definition calculateTrend :: "point list \<Rightarrow> trend_result" where
  "calculateTrend hdata =
     (if length hdata < 2 then \<lparr>trend = ''neutral'', percentage = VNum (Fin 0)\<rparr>
      else
        (let latest = rate (hdata ! (length hdata - 1));
             previous = rate (hdata ! (length hdata - 2));
             change = js_mul (js_div (js_sub latest previous) previous) (lit 100)
         in \<lparr>trend = (if js_gt change (Fin 0) then ''up''
                       else if js_lt change (Fin 0) then ''down'' else ''neutral''),
              percentage = VStr (toFixed 2 (Math_abs change))\<rparr>))"

section \<open>Derived notions and sample environments\<close>

text \<open>
  \<open>shifted E i\<close> is the time value of the Date of the iteration with counter
  \<open>i\<close>, and \<open>dates_valid E days\<close> says that it is a valid one for every counter
  from \<open>days\<close> down to \<open>0\<close>.
\<close>

definition shifted :: "env \<Rightarrow> int \<Rightarrow> int option" where
  "shifted E i = setDate_back E i (Some (now E))"

definition dates_valid :: "env \<Rightarrow> int \<Rightarrow> bool" where
  "dates_valid E days = list_all (\<lambda>i. shifted E i \<noteq> None) [0..days]"

text \<open>
  Sample hosts. \<open>sin_table\<close> gives \<^verbatim>\<open>Math.sin\<close> at \<open>0.1\<close> and at \<open>0\<close>, the
  arguments of a window of one day, and \<open>draws\<close> is a sequence of values of
  \<^verbatim>\<open>Math.random\<close>. \<open>E_utc\<close> is a host on UTC at 2026-11-03T12:00:00Z.
  \<open>E_london\<close> is a host whose zone went from UTC+0 to UTC+1 at
  2026-03-29T01:00:00Z, as Europe/London did, called at 2026-03-29T23:30:00Z,
  which is 00:30 on 30 March in local time.
\<close>

definition sin_table :: "real \<Rightarrow> real" where
  "sin_table x = (if x = rnd (1/10) then 1798438952039115 / 18014398509481984 else 0)"

definition draws :: "nat \<Rightarrow> real" where
  "draws k = (if k = 0 then 1/2 else if k = 1 then 1/4 else 3/4)"

definition E_utc :: env where
  "E_utc = \<lparr>now = 1793707200000, tza_utc = (\<lambda>t. 0), tza_local = (\<lambda>t. 0),
     msin = sin_table, random = draws\<rparr>"

definition E_london :: env where
  "E_london = \<lparr>now = 1774827000000,
     tza_utc = (\<lambda>t. if t < 1774746000000 then 0 else 3600000),
     tza_local = (\<lambda>t. if t < 1774749600000 then 0 else 3600000),
     msin = sin_table, random = draws\<rparr>"

text \<open>
  What a host provides: \<^verbatim>\<open>Math.random\<close> returns a double in \<open>[0, 1)\<close>, and
  \<^verbatim>\<open>Math.sin\<close> a double in \<open>[-1, 1]\<close>.
\<close>

definition unit_draw :: "real \<Rightarrow> bool" where
  "unit_draw r \<longleftrightarrow> is_double r \<and> 0 \<le> r \<and> r < 1"

definition env_ok :: "env \<Rightarrow> bool" where
  "env_ok E \<longleftrightarrow> (\<forall>k. unit_draw (random E k)) \<and> (\<forall>x. is_double (msin E x) \<and> \<bar>msin E x\<bar> \<le> 1)"

text \<open>\<open>E_top\<close> is \<open>E_utc\<close> with \<^verbatim>\<open>Math.random\<close> returning its largest value, \<open>1 - 2^-52\<close>.\<close>

definition E_top :: env where
  "E_top = E_utc\<lparr>random := (\<lambda>k. 1 - 1 / 2 ^ 52)\<rparr>"

text \<open>
  The wording of the claim on the rates, for comparison with the code: a value
  rounded to 4 decimal places is the double nearest to the nearest multiple of
  \<open>10^-4\<close> (the upper one at a tie), and the rate at the counter \<open>i\<close> with the
  draw \<open>u\<close> is \<open>max(0.1, baseRate + (sin(i * 0.1) + u - 0.5) * 0.05)\<close> rounded
  that way.
\<close>

definition rounded4 :: "real \<Rightarrow> jsnum" where
  "rounded4 x = to_double (of_int \<lfloor>x * 10 ^ 4 + 1/2\<rfloor> / 10 ^ 4)"

definition spec_rate :: "env \<Rightarrow> real \<Rightarrow> int \<Rightarrow> real \<Rightarrow> jsnum" where
  "spec_rate E baseRate i u =
     (case Math_max (lit (1/10))
             (js_add (Fin baseRate)
                (js_mul (js_sub (js_add (Math_sin E (js_mul (Fin (of_int i)) (lit (1/10)))) (Fin u))
                                (lit (5/10)))
                        (lit (5/100)))) of
        Fin v \<Rightarrow> rounded4 v
      | w \<Rightarrow> w)"



section \<open>Evaluation and basic facts\<close>

lemmas num_defs = lit_def to_double_def rnd_def ulp_def binade_def rne_def

lemmas date_defs = setDate_back_def TimeClip_def UTC_def LocalTime_def MakeDate_def Day_def
  TimeWithinDay_def msPerDay_def maxTime_def toISOString_date_def toLocaleDateString_day_def

lemmas gen_defs = generateMockHistoricalData_def gen_baseRate_def gen_loop.simps gen_point_def
  Math_random_def js_sub_def toFixed_def sin_table_def draws_def

section \<open>Rounding\<close>

subsection \<open>Rounding to an integer\<close>
lemma rne_of_int: "rne (of_int n) = n"
  by (simp add: rne_def)

lemma rne_bounds: "\<lfloor>x\<rfloor> \<le> rne x \<and> rne x \<le> \<lfloor>x\<rfloor> + 1"
  by (simp add: rne_def Let_def)

lemma rne_mono: "x \<le> y \<Longrightarrow> rne x \<le> rne y"
proof -
  assume xy: "x \<le> y"
  then have f: "\<lfloor>x\<rfloor> \<le> \<lfloor>y\<rfloor>" by (rule floor_mono)
  show ?thesis
  proof (cases "\<lfloor>x\<rfloor> = \<lfloor>y\<rfloor>")
    case True
    define rx where "rx = x - of_int \<lfloor>x\<rfloor>"
    define ry where "ry = y - of_int \<lfloor>y\<rfloor>"
    have r: "rx \<le> ry" using xy True by (simp add: rx_def ry_def)
    consider "ry < 1/2" | "1/2 < ry" | "ry = 1/2" "rx < 1/2" | "ry = 1/2" "rx = 1/2"
      using r by linarith
    then show ?thesis
    proof cases
      case 1
      then have "rx < 1/2" using r by simp
      with 1 show ?thesis using True unfolding rne_def Let_def rx_def ry_def by simp
    next
      case 2
      then have "rne y = \<lfloor>y\<rfloor> + 1" unfolding rne_def Let_def ry_def by simp
      then show ?thesis using rne_bounds [of x] True by simp
    next
      case 3
      then have "rne x = \<lfloor>x\<rfloor>" unfolding rne_def Let_def rx_def by simp
      then show ?thesis using rne_bounds [of y] True by simp
    next
      case 4
      then have "rx = ry" by simp
      then have "x = y" using True unfolding rx_def ry_def by simp
      then show ?thesis by simp
    qed
  next
    case False
    then have "\<lfloor>x\<rfloor> + 1 \<le> \<lfloor>y\<rfloor>" using f by simp
    then show ?thesis using rne_bounds [of x] rne_bounds [of y] by linarith
  qed
qed

lemma rne_ge_int: "of_int n \<le> x \<Longrightarrow> n \<le> rne x"
  using rne_mono [of "of_int n" x] by (simp add: rne_of_int)

lemma rne_le_int: "x \<le> of_int n \<Longrightarrow> rne x \<le> n"
  using rne_mono [of x "of_int n"] by (simp add: rne_of_int)




lemma pow2_pos: "0 < (2::real) powi k"
  by simp

lemma pow2_suc: "(2::real) powi (k + 1) = 2 * 2 powi k"
  by (simp add: power_int_add)

lemma pow2_mono: "a \<le> b \<Longrightarrow> (2::real) powi a \<le> 2 powi b"
  by (rule power_int_increasing) simp_all

lemma expo_up_spec:
  "1 \<le> x \<Longrightarrow> e0 \<le> 1024 \<Longrightarrow>
   e0 \<le> expo_up e0 x \<and> expo_up e0 x \<le> 1024 \<and>
   2 powi (expo_up e0 x - e0) \<le> x \<and>
   (expo_up e0 x < 1024 \<longrightarrow> x < 2 powi (expo_up e0 x - e0 + 1))"
proof (induction e0 x rule: expo_up.induct)
  case (1 e x)
  show ?case
  proof (cases "x < 2 \<or> 1024 \<le> e")
    case True
    then have s: "expo_up e x = e" by (subst expo_up.simps) simp
    show ?thesis unfolding s using "1.prems" True by auto
  next
    case False
    then have s: "expo_up e x = expo_up (e + 1) (x / 2)" by (subst expo_up.simps) simp
    have p: "1 \<le> x / 2" "e + 1 \<le> 1024" using False by auto
    note IH = "1.IH" [OF False p]
    define r where "r = expo_up (e + 1) (x / 2)"
    have a: "2 powi (r - e) = 2 * (2::real) powi (r - (e + 1))"
    proof -
      have "r - e = (r - (e + 1)) + 1" by simp
      then show ?thesis by (metis pow2_suc)
    qed
    have b: "2 powi (r - e + 1) = 2 * (2::real) powi (r - (e + 1) + 1)"
    proof -
      have "r - e + 1 = (r - (e + 1) + 1) + 1" by simp
      then show ?thesis by (metis pow2_suc)
    qed
    from IH have i1: "e + 1 \<le> r" and i2: "r \<le> 1024" and i3: "2 powi (r - (e + 1)) \<le> x / 2"
      and i4: "r < 1024 \<longrightarrow> x / 2 < 2 powi (r - (e + 1) + 1)"
      unfolding r_def by blast+
    define P where "P = (2::real) powi (r - (e + 1))"
    define Q where "Q = (2::real) powi (r - (e + 1) + 1)"
    have "e \<le> r" using i1 by simp
    moreover have "2 powi (r - e) \<le> x"
      using i3 unfolding a P_def [symmetric] by linarith
    moreover have "r < 1024 \<longrightarrow> x < 2 powi (r - e + 1)"
      using i4 unfolding b Q_def [symmetric] by auto
    ultimately show ?thesis unfolding s r_def [symmetric] using i2 by blast
  qed
qed


lemma expo_down_spec:
  "0 \<le> x \<Longrightarrow> x < 2 \<Longrightarrow>
   expo_down e0 x \<le> e0 \<and> min e0 (- 1022) \<le> expo_down e0 x \<and>
   x < 2 powi (expo_down e0 x - e0 + 1) \<and>
   (- 1022 < expo_down e0 x \<longrightarrow> 2 powi (expo_down e0 x - e0) \<le> x)"
proof (induction e0 x rule: expo_down.induct)
  case (1 e x)
  show ?case
  proof (cases "1 \<le> x \<or> e \<le> - 1022")
    case True
    then have s: "expo_down e x = e" by (subst expo_down.simps) simp
    show ?thesis unfolding s using "1.prems" True by auto
  next
    case False
    then have s: "expo_down e x = expo_down (e - 1) (2 * x)" by (subst expo_down.simps) simp
    have p: "0 \<le> 2 * x" "2 * x < 2" using False "1.prems" by auto
    note IH = "1.IH" [OF False p]
    define r where "r = expo_down (e - 1) (2 * x)"
    have a: "2 powi (r - (e - 1)) = 2 * (2::real) powi (r - e)"
    proof -
      have "r - (e - 1) = (r - e) + 1" by simp
      then show ?thesis by (metis pow2_suc)
    qed
    have b: "2 powi (r - (e - 1) + 1) = 2 * (2::real) powi (r - e + 1)"
    proof -
      have "r - (e - 1) + 1 = (r - e + 1) + 1" by simp
      then show ?thesis by (metis pow2_suc)
    qed
    from IH have i1: "r \<le> e - 1" and i2: "min (e - 1) (- 1022) \<le> r"
      and i3: "2 * x < 2 powi (r - (e - 1) + 1)"
      and i4: "- 1022 < r \<longrightarrow> 2 powi (r - (e - 1)) \<le> 2 * x"
      unfolding r_def by blast+
    define P where "P = (2::real) powi (r - e)"
    define Q where "Q = (2::real) powi (r - e + 1)"
    have "r \<le> e" using i1 by simp
    moreover have "min e (- 1022) \<le> r" using i2 False by simp
    moreover have "x < 2 powi (r - e + 1)"
      using i3 unfolding b Q_def [symmetric] by linarith
    moreover have "- 1022 < r \<longrightarrow> 2 powi (r - e) \<le> x"
      using i4 unfolding a P_def [symmetric] by auto
    ultimately show ?thesis unfolding s r_def [symmetric] by blast
  qed
qed

lemma binade_range: "0 \<le> x \<Longrightarrow> - 1022 \<le> binade x \<and> binade x \<le> 1024"
proof (cases "1 \<le> x")
  case True
  then show ?thesis using expo_up_spec [of x 0] by (simp add: binade_def)
next
  case False
  moreover assume "0 \<le> x"
  ultimately show ?thesis using expo_down_spec [of x 0] by (simp add: binade_def)
qed

lemma binade_upper: "0 \<le> x \<Longrightarrow> binade x < 1024 \<Longrightarrow> x < 2 powi (binade x + 1)"
proof (cases "1 \<le> x")
  case True
  moreover assume "binade x < 1024"
  ultimately show ?thesis using expo_up_spec [of x 0] by (simp add: binade_def)
next
  case False
  moreover assume "0 \<le> x"
  ultimately show ?thesis using expo_down_spec [of x 0] by (simp add: binade_def)
qed

lemma binade_lower: "0 \<le> x \<Longrightarrow> - 1022 < binade x \<Longrightarrow> 2 powi binade x \<le> x"
proof (cases "1 \<le> x")
  case True
  then show ?thesis using expo_up_spec [of x 0] by (simp add: binade_def)
next
  case False
  moreover assume "0 \<le> x" "- 1022 < binade x"
  ultimately show ?thesis using expo_down_spec [of x 0] by (simp add: binade_def)
qed

lemma binade_unique:
  assumes "0 \<le> x" "- 1022 \<le> e" "e \<le> 1023" "x < 2 powi (e + 1)" "- 1022 < e \<longrightarrow> 2 powi e \<le> x"
  shows "binade x = e"
proof (rule ccontr)
  assume ne: "binade x \<noteq> e"
  note r = binade_range [OF assms(1)]
  show False
  proof (cases "binade x < e")
    case True
    then have "2 powi (binade x + 1) \<le> (2::real) powi e" by (intro pow2_mono) simp
    moreover have "x < 2 powi (binade x + 1)" using True assms(3) by (intro binade_upper assms(1)) simp
    moreover have "2 powi e \<le> x" using True r assms(5) by simp
    ultimately show False by simp
  next
    case False
    then have lt: "e < binade x" using ne by simp
    then have "2 powi (e + 1) \<le> (2::real) powi binade x" by (intro pow2_mono) simp
    moreover have "2 powi binade x \<le> x" using lt assms(2) by (intro binade_lower assms(1)) simp
    ultimately show False using assms(4) by simp
  qed
qed

lemma binade_mono: "0 \<le> x \<Longrightarrow> x \<le> y \<Longrightarrow> binade x \<le> binade y"
proof (rule ccontr)
  assume x: "0 \<le> x" and xy: "x \<le> y" and n: "\<not> binade x \<le> binade y"
  then have y: "0 \<le> y" by simp
  have lt: "binade y < binade x" using n by simp
  have "binade y < 1024" using lt binade_range [OF x] by simp
  then have "y < 2 powi (binade y + 1)" by (rule binade_upper [OF y])
  moreover have "2 powi (binade y + 1) \<le> (2::real) powi binade x" using lt by (intro pow2_mono) simp
  moreover have "2 powi binade x \<le> x" using lt binade_range [OF y] by (intro binade_lower x) simp
  ultimately show False using xy by simp
qed



lemma pow2_split: "(2::real) powi a * 2 powi b = 2 powi (a + b)"
  by (simp add: power_int_add)

lemma pow2_53_ulp: "(2::real) ^ 53 * 2 powi (e - 52) = 2 powi (e + 1)"
proof -
  have "(2::real) ^ 53 = 2 powi 53" by simp
  then show ?thesis using pow2_split [of 53 "e - 52"] by (simp only: ) (simp add: algebra_simps)
qed

lemma pow2_52_ulp: "(2::real) ^ 52 * 2 powi (e - 52) = 2 powi e"
proof -
  have "(2::real) ^ 52 = 2 powi 52" by simp
  then show ?thesis using pow2_split [of 52 "e - 52"] by (simp only: ) (simp add: algebra_simps)
qed

lemma ulp_pos: "0 < ulp x"
  by (simp add: ulp_def)

lemma ulp_neg: "ulp (- x) = ulp x"
  by (simp add: ulp_def)

lemma rnd_zero: "rnd 0 = 0"
  by (simp add: rnd_def)

lemma rnd_neg: "rnd (- x) = - rnd x"
  by (simp add: rnd_def ulp_neg sgn_minus)

lemma rnd_pos_eq: "0 < x \<Longrightarrow> rnd x = of_int (rne (x / ulp x)) * ulp x"
  by (simp add: rnd_def)

lemma ulp_pos_eq: "0 \<le> x \<Longrightarrow> ulp x = 2 powi (binade x - 52)"
  by (simp add: ulp_def)

lemma rnd_nonneg: "0 \<le> x \<Longrightarrow> 0 \<le> rnd x"
proof (cases "x = 0")
  case True
  then show ?thesis by (simp add: rnd_zero)
next
  case False
  moreover assume "0 \<le> x"
  ultimately have x: "0 < x" by simp
  have "0 \<le> x / ulp x" using x ulp_pos [of x] by simp
  then have "0 \<le> rne (x / ulp x)" using rne_ge_int [of 0 "x / ulp x"] by simp
  then show ?thesis using ulp_pos [of x] by (simp add: rnd_pos_eq [OF x])
qed

lemma rnd_upper:
  assumes x: "0 < x" and e: "binade x < 1024"
  shows "rnd x \<le> 2 powi (binade x + 1)"
proof -
  define u where "u = ulp x"
  have u: "u = 2 powi (binade x - 52)" "0 < u" using x by (simp_all add: u_def ulp_pos_eq)
  have "x < 2 powi (binade x + 1)" using x e by (intro binade_upper) simp_all
  also have "\<dots> = 2 ^ 53 * u" unfolding u(1) by (rule pow2_53_ulp [symmetric])
  finally have "x / u < 2 ^ 53" using u(2) by (simp add: field_simps)
  then have "x / u \<le> of_int (2 ^ 53)" by simp
  then have "rne (x / u) \<le> 2 ^ 53" by (rule rne_le_int)
  then have "(of_int (rne (x / u)) :: real) \<le> 2 ^ 53"
    by (metis of_int_le_iff of_int_numeral of_int_power)
  then have "of_int (rne (x / u)) * u \<le> 2 ^ 53 * u" using u(2) by simp
  then show ?thesis unfolding rnd_pos_eq [OF x] u_def [symmetric] u(1) pow2_53_ulp .
qed

lemma rnd_lower:
  assumes x: "0 < x" and e: "- 1022 < binade x"
  shows "2 powi binade x \<le> rnd x"
proof -
  define u where "u = ulp x"
  have u: "u = 2 powi (binade x - 52)" "0 < u" using x by (simp_all add: u_def ulp_pos_eq)
  have "2 ^ 52 * u = 2 powi binade x" unfolding u(1) by (rule pow2_52_ulp)
  also have "\<dots> \<le> x" using x e by (intro binade_lower) simp_all
  finally have "2 ^ 52 \<le> x / u" using u(2) by (simp add: field_simps)
  then have "of_int (2 ^ 52) \<le> x / u" by simp
  then have "2 ^ 52 \<le> rne (x / u)" by (rule rne_ge_int)
  then have "(2::real) ^ 52 \<le> of_int (rne (x / u))"
    by (metis of_int_le_iff of_int_numeral of_int_power)
  then have "2 ^ 52 * u \<le> of_int (rne (x / u)) * u" using u(2) by simp
  then show ?thesis unfolding rnd_pos_eq [OF x] u_def [symmetric] u(1) pow2_52_ulp .
qed

lemma rnd_mono_pos:
  assumes x: "0 < x" and xy: "x \<le> y"
  shows "rnd x \<le> rnd y"
proof -
  have y: "0 < y" using x xy by simp
  have le: "binade x \<le> binade y" using x xy by (intro binade_mono) simp_all
  show ?thesis
  proof (cases "binade x = binade y")
    case True
    then have u: "ulp x = ulp y" using x y by (simp add: ulp_pos_eq)
    have "x / ulp y \<le> y / ulp y" using xy ulp_pos [of y] by (simp add: divide_right_mono)
    then have "rne (x / ulp y) \<le> rne (y / ulp y)" by (rule rne_mono)
    then have "(of_int (rne (x / ulp y)) :: real) \<le> of_int (rne (y / ulp y))" by simp
    then show ?thesis
      unfolding rnd_pos_eq [OF x] rnd_pos_eq [OF y] u using ulp_pos [of y]
      by (simp add: mult_right_mono)
  next
    case False
    then have lt: "binade x < binade y" using le by simp
    have "binade x < 1024" using lt binade_range [of y] y by simp
    then have "rnd x \<le> 2 powi (binade x + 1)" by (rule rnd_upper [OF x])
    also have "\<dots> \<le> 2 powi binade y" using lt by (intro pow2_mono) simp
    also have "\<dots> \<le> rnd y" using lt binade_range [of x] x by (intro rnd_lower y) simp
    finally show ?thesis .
  qed
qed

lemma rnd_mono: "x \<le> y \<Longrightarrow> rnd x \<le> rnd y"
proof -
  assume xy: "x \<le> y"
  consider "0 < x" | "x \<le> 0" "0 \<le> y" | "y < 0" by linarith
  then show ?thesis
  proof cases
    case 1
    then show ?thesis using xy by (rule rnd_mono_pos)
  next
    case 2
    have "0 \<le> rnd (- x)" using 2 by (intro rnd_nonneg) simp
    then have "rnd x \<le> 0" by (simp add: rnd_neg)
    also have "0 \<le> rnd y" using 2 by (intro rnd_nonneg)
    finally show ?thesis .
  next
    case 3
    then have "rnd (- y) \<le> rnd (- x)" using xy by (intro rnd_mono_pos) simp_all
    then show ?thesis by (simp add: rnd_neg)
  qed
qed



lemma to_double_fin: "- (2 ^ 1024) < rnd x \<Longrightarrow> rnd x < 2 ^ 1024 \<Longrightarrow> to_double x = Fin (rnd x)"
  by (simp add: to_double_def Let_def)

lemma rnd_between:
  "a \<le> x \<Longrightarrow> x \<le> b \<Longrightarrow> rnd a = a' \<Longrightarrow> rnd b = b' \<Longrightarrow> a' \<le> rnd x \<and> rnd x \<le> b'"
  using rnd_mono [of a x] rnd_mono [of x b] by simp

lemma double_grid:
  assumes "is_double x" "0 < x"
  shows "\<exists>n::int. x = of_int n * ulp x"
proof -
  have "rnd x = x" using assms(1) by (simp add: is_double_def)
  then have "x = of_int (rne (x / ulp x)) * ulp x" by (simp add: rnd_pos_eq [OF assms(2)])
  then show ?thesis ..
qed

lemma unit_draw_max:
  assumes "unit_draw r"
  shows "r \<le> 1 - 1 / 2 ^ 53"
proof (rule ccontr)
  assume n: "\<not> r \<le> 1 - 1 / 2 ^ 53"
  have r: "is_double r" "0 \<le> r" "r < 1" using assms by (simp_all add: unit_draw_def)
  have half: "1 / 2 \<le> r" using n by simp
  have b: "binade r = - 1"
    by (rule binade_unique) (use r half in simp_all)
  have u: "ulp r = 1 / 2 ^ 53" using r(2) by (simp add: ulp_pos_eq b)
  from double_grid [OF r(1)] half obtain m :: int where m: "r = of_int m * ulp r" by auto
  then have rm: "r = of_int m / 2 ^ 53" by (simp add: u)
  then have "of_int m < (2::real) ^ 53" using r(3) by (simp add: field_simps)
  then have "m < 2 ^ 53" by (metis of_int_less_iff of_int_numeral of_int_power)
  then have "m \<le> 2 ^ 53 - 1" by simp
  then have "(of_int m :: real) \<le> of_int (2 ^ 53 - 1)" by (simp only: of_int_le_iff)
  then have "r \<le> (2 ^ 53 - 1) / 2 ^ 53" unfolding rm by (simp add: divide_right_mono)
  then show False using n by (simp add: field_simps)
qed

lemma mock_rate_range:
  assumes "unit_draw r"
  shows "\<exists>y. js_add (lit (5/10)) (js_mul (Fin r) (lit (15/10))) = Fin y \<and> 1/2 \<le> y \<and> y < 2"
proof -
  have r: "0 \<le> r" "r \<le> 1 - 1 / 2 ^ 53" using assms unit_draw_max by (simp_all add: unit_draw_def)
  have l1: "lit (5/10) = Fin (1/2)" by (simp add: num_defs)
  have l2: "lit (15/10) = Fin (3/2)" by (simp add: num_defs)
  have e0: "rnd 0 = 0" by (rule rnd_zero)
  have e1: "rnd ((1 - 1 / 2 ^ 53) * (3/2)) = 3/2 - 1 / 2 ^ 52" by (simp add: num_defs)
  have "0 \<le> r * (3/2)" "r * (3/2) \<le> (1 - 1 / 2 ^ 53) * (3/2)" using r by simp_all
  from rnd_between [OF this e0 e1]
  have m: "0 \<le> rnd (r * (3/2))" "rnd (r * (3/2)) \<le> 3/2 - 1 / 2 ^ 52" by simp_all
  then have t1: "to_double (r * (3/2)) = Fin (rnd (r * (3/2)))"
    by (intro to_double_fin) simp_all
  have e2: "rnd (1/2 + 0) = 1/2" by (simp add: num_defs)
  have e3: "rnd (1/2 + (3/2 - 1 / 2 ^ 52)) = 2 - 1 / 2 ^ 52" by (simp add: num_defs)
  have "1/2 + 0 \<le> 1/2 + rnd (r * (3/2))" "1/2 + rnd (r * (3/2)) \<le> 1/2 + (3/2 - 1 / 2 ^ 52)"
    using m by simp_all
  from rnd_between [OF this e2 e3]
  have y: "1/2 \<le> rnd (1/2 + rnd (r * (3/2)))" "rnd (1/2 + rnd (r * (3/2))) \<le> 2 - 1 / 2 ^ 52"
    by simp_all
  then have t2: "to_double (1/2 + rnd (r * (3/2))) = Fin (rnd (1/2 + rnd (r * (3/2))))"
    by (intro to_double_fin) simp_all
  have "js_add (lit (5/10)) (js_mul (Fin r) (lit (15/10))) = Fin (rnd (1/2 + rnd (r * (3/2))))"
    unfolding l1 l2 by (simp only: js_mul.simps js_add.simps t1 t2)
  moreover have "rnd (1/2 + rnd (r * (3/2))) < 2" using y(2) by simp
  ultimately show ?thesis using y(1) by blast
qed

section \<open>Swapping the currency pair\<close>

text \<open>
  C9. \<open>handleSwapCurrencies\<close> exchanges \<open>fromCurrency\<close> and \<open>toCurrency\<close> and leaves
  every other field of the state as it was; applying it twice gives the
  original state back.
\<close>

theorem swap_exchanges_and_involutive:
  "fromCurrency (handleSwapCurrencies s) = toCurrency s \<and>
   toCurrency (handleSwapCurrencies s) = fromCurrency s \<and>
   amount (handleSwapCurrencies s) = amount s \<and>
   exchangeRate (handleSwapCurrencies s) = exchangeRate s \<and>
   convertedAmount (handleSwapCurrencies s) = convertedAmount s \<and>
   loading (handleSwapCurrencies s) = loading s \<and>
   historicalData (handleSwapCurrencies s) = historicalData s \<and>
   chartPeriod (handleSwapCurrencies s) = chartPeriod s \<and>
   lastUpdated (handleSwapCurrencies s) = lastUpdated s \<and>
   handleSwapCurrencies (handleSwapCurrencies s) = s"
  by (simp add: handleSwapCurrencies_def)

section \<open>The trend of a short history\<close>

text \<open>
  C7. For the empty history and for every history of one point,
  \<open>calculateTrend\<close> returns the direction neutral and the number 0 as
  percentage.
\<close>

theorem trend_short_history:
  "calculateTrend [] = \<lparr>trend = ''neutral'', percentage = VNum (Fin 0)\<rparr> \<and>
   calculateTrend [p] = \<lparr>trend = ''neutral'', percentage = VNum (Fin 0)\<rparr>"
  by (simp add: calculateTrend_def)

section \<open>The loop of the generator\<close>

lemma gen_point_valid:
  "shifted E i = Some t \<Longrightarrow> \<exists>p. gen_point E b i k = Inr p \<and> date p = Day t \<and> displayDate p = Day (LocalTime E t)"
  by (simp add: gen_point_def shifted_def toISOString_date_def toLocaleDateString_day_def Let_def)

lemma gen_point_invalid:
  "shifted E i = None \<Longrightarrow> gen_point E b i k = Inl RangeError"
  by (simp add: gen_point_def shifted_def toISOString_date_def Let_def)

lemma gen_loop_valid:
  "(\<And>j. 0 \<le> j \<Longrightarrow> j \<le> i \<Longrightarrow> shifted E j \<noteq> None) \<Longrightarrow>
   gen_loop E b i k data =
     Inr (data @ map (\<lambda>j. projr (gen_point E b j (k + nat (i - j)))) (rev [0..i]), k + nat (i + 1))"
proof (induction "nat (i + 1)" arbitrary: i k data)
  case 0
  then have "i < 0" by simp
  then show ?case by (simp add: gen_loop.simps)
next
  case (Suc n)
  then have i: "0 \<le> i" and n: "n = nat ((i - 1) + 1)" by auto
  define f where "f = (\<lambda>j. projr (gen_point E b j (k + nat (i - j))))"
  define g where "g = (\<lambda>j. projr (gen_point E b j (Suc k + nat (i - 1 - j))))"
  from Suc.prems i have "shifted E i \<noteq> None" by simp
  then obtain t where t: "shifted E i = Some t" by auto
  from gen_point_valid [OF t] obtain p where p: "gen_point E b i k = Inr p" by blast
  have fi: "f i = p" by (simp add: f_def p)
  have IH: "gen_loop E b (i - 1) (Suc k) (data @ [p]) =
     Inr ((data @ [p]) @ map g (rev [0..i - 1]), Suc k + nat (i - 1 + 1))"
    unfolding g_def by (rule Suc.hyps(1) [OF n]) (use Suc.prems in simp)
  have up: "rev [0..i] = i # rev [0..i - 1]" using i by (simp add: upto_rec2)
  have m: "map g (rev [0..i - 1]) = map f (rev [0..i - 1])"
  proof (rule map_cong [OF refl])
    fix j assume "j \<in> set (rev [0..i - 1])"
    then have "Suc k + nat (i - 1 - j) = k + nat (i - j)" by auto
    then show "g j = f j" unfolding f_def g_def by (simp only:)
  qed
  have k: "Suc k + nat (i - 1 + 1) = k + nat (i + 1)" using i by simp
  have "gen_loop E b i k data = gen_loop E b (i - 1) (Suc k) (data @ [p])"
    using i p by (simp add: gen_loop.simps [of E b i])
  also have "\<dots> = Inr (data @ map f (rev [0..i]), k + nat (i + 1))"
    unfolding IH m up k by (simp add: fi)
  finally show ?case unfolding f_def .
qed

lemma gen_loop_invalid:
  "0 \<le> j \<Longrightarrow> j \<le> i \<Longrightarrow> shifted E j = None \<Longrightarrow> gen_loop E b i k data = Inl RangeError"
proof (induction "nat (i + 1)" arbitrary: i k data)
  case 0
  then show ?case by simp
next
  case (Suc n)
  then have i: "0 \<le> i" and n: "n = nat ((i - 1) + 1)" by auto
  show ?case
  proof (cases "shifted E i")
    case None
    then show ?thesis using i by (simp add: gen_loop.simps [of E b i] gen_point_invalid)
  next
    case (Some t)
    then have "j \<noteq> i" using Suc.prems by auto
    then have j: "j \<le> i - 1" using Suc.prems by simp
    from gen_point_valid [OF Some] obtain p where p: "gen_point E b i k = Inr p" by blast
    show ?thesis
      using i p Suc.hyps(1) [OF n Suc.prems(1) j Suc.prems(3)]
      by (simp add: gen_loop.simps [of E b i])
  qed
qed


lemma dates_valid_iff: "dates_valid E days \<longleftrightarrow> (\<forall>j. 0 \<le> j \<and> j \<le> days \<longrightarrow> shifted E j \<noteq> None)"
  by (auto simp: dates_valid_def list_all_iff)

lemma generate_valid:
  "dates_valid E days \<Longrightarrow>
   generateMockHistoricalData E days k =
     Inr (map (\<lambda>j. projr (gen_point E (gen_baseRate E k) j (Suc k + nat (days - j)))) (rev [0..days]),
          Suc k + nat (days + 1))"
  unfolding generateMockHistoricalData_def Let_def
  by (subst gen_loop_valid) (auto simp: dates_valid_iff)

lemma generate_invalid:
  "\<not> dates_valid E days \<Longrightarrow> generateMockHistoricalData E days k = Inl RangeError"
  unfolding generateMockHistoricalData_def Let_def dates_valid_iff
  by (auto intro: gen_loop_invalid)

lemma shifted_no_change:
  assumes "tza_local E (now E + tza_utc E (now E) - j * msPerDay) = tza_utc E (now E)"
  shows "shifted E j = TimeClip (now E - j * msPerDay)"
proof -
  define c where "c = tza_utc E (now E)"
  have "MakeDate (Day (now E + c) - j) (TimeWithinDay (now E + c)) = now E + c - j * msPerDay"
    by (simp add: MakeDate_def Day_def TimeWithinDay_def algebra_simps)
  then show ?thesis
    using assms unfolding c_def [symmetric]
    by (simp add: shifted_def setDate_back_def LocalTime_def UTC_def Let_def c_def [symmetric])
qed

lemma Day_shift: "Day (t - j * msPerDay) = Day t - j"
  by (simp add: Day_def msPerDay_def)

lemma map_rev_upto: "0 \<le> n \<Longrightarrow> map (\<lambda>j. a - j) (rev [0..n]) = [a - n..a]"
proof (induction "nat n" arbitrary: n)
  case 0
  then have "n = 0" by simp
  then show ?case by simp
next
  case (Suc m)
  then have n: "0 < n" "m = nat (n - 1)" "0 \<le> n - 1" by auto
  have "rev [0..n] = n # rev [0..n - 1]" using n by (simp add: upto_rec2)
  moreover have "[a - n..a] = (a - n) # [a - (n - 1)..a]" using n by (simp add: upto_rec1)
  ultimately show ?case using Suc.hyps(1) [OF n(2) n(3)] by simp
qed


lemma dates_valid_sane:
  assumes utc: "\<forall>t. \<bar>tza_utc E t\<bar> \<le> msPerDay" and loc: "\<forall>t. \<bar>tza_local E t\<bar> \<le> msPerDay"
    and rng: "\<bar>now E\<bar> + (days + 2) * msPerDay \<le> maxTime"
  shows "dates_valid E days"
  unfolding dates_valid_iff
proof (intro allI impI)
  fix j assume j: "0 \<le> j \<and> j \<le> days"
  define t where "t = LocalTime E (now E)"
  define nd where "nd = MakeDate (Day t - j) (TimeWithinDay t)"
  have nd: "nd = now E + tza_utc E (now E) - j * msPerDay"
    by (simp add: nd_def t_def MakeDate_def Day_def TimeWithinDay_def LocalTime_def algebra_simps)
  have "0 \<le> j * msPerDay" "j * msPerDay \<le> days * msPerDay"
    using j by (simp_all add: msPerDay_def)
  moreover have "\<bar>tza_utc E (now E)\<bar> \<le> msPerDay" "\<bar>tza_local E nd\<bar> \<le> msPerDay"
    using utc loc by auto
  ultimately have "\<bar>UTC E nd\<bar> \<le> maxTime"
    using rng unfolding UTC_def nd by (simp add: algebra_simps)
  then show "shifted E j \<noteq> None"
    by (simp add: shifted_def setDate_back_def Let_def TimeClip_def t_def [symmetric] nd_def [symmetric])
qed


section \<open>The dates of the generated history\<close>

text \<open>
  C1. The claim has one point for each calendar day, the dates strictly
  ascending without duplicates or gaps and ending today. The code steps the
  Date back in local time (\<^verbatim>\<open>setDate\<close>, \<^verbatim>\<open>getDate\<close>) but prints it with
  \<^verbatim>\<open>toISOString\<close>, which is in UTC, and so does not deliver this across a
  change of the zone offset: on \<open>E_london\<close>, a window of one day yields two
  points both dated day 20541 (2026-03-29). The field \<open>displayDate\<close>, taken
  from the same Date in local time, does tell the two days apart (20541 and
  20542).
\<close>

theorem generate_dates_duplicate_across_offset_change:
  "generateMockHistoricalData E_london 1 0 =
     Inr ([\<lparr>date = 20541, rate = Fin (8939645260330435 / 9007199254740992), displayDate = 20541\<rparr>,
           \<lparr>date = 20541, rate = Fin (4559894622712627 / 4503599627370496), displayDate = 20542\<rparr>], 3)"
  by (simp add: gen_defs E_london_def date_defs num_defs)

text \<open>
  Where no change of the zone offset falls in the window, that is, the offset
  in force at the local time of every step is the offset of the call, and the
  window stays within the range of Date, the dates are the consecutive UTC
  days from the day of the call minus \<open>days\<close> up to the day of the call.
\<close>

lemma generate_dates_without_offset_change:
  assumes days: "0 \<le> days"
    and same: "\<forall>j. 0 \<le> j \<and> j \<le> days \<longrightarrow>
                 tza_local E (now E + tza_utc E (now E) - j * msPerDay) = tza_utc E (now E)"
    and hi: "now E \<le> maxTime" and lo: "- maxTime \<le> now E - days * msPerDay"
  shows "\<exists>ps k'. generateMockHistoricalData E days k = Inr (ps, k') \<and>
           map date ps = [Day (now E) - days..Day (now E)] \<and>
           length ps = nat days + 1 \<and>
           (\<forall>j<length ps. date (ps ! j) = Day (now E) - (days - int j)) \<and>
           sorted_wrt (<) (map date ps) \<and> distinct (map date ps) \<and>
           date (hd ps) = Day (now E) - days \<and> date (last ps) = Day (now E)"
proof -
  define b where "b = gen_baseRate E k"
  define f where "f = (\<lambda>j. projr (gen_point E b j (Suc k + nat (days - j))))"
  define ps where "ps = map f (rev [0..days])"
  have sh: "shifted E j = Some (now E - j * msPerDay)" if "0 \<le> j" "j \<le> days" for j
  proof -
    have "0 \<le> j * msPerDay" "j * msPerDay \<le> days * msPerDay"
      using that by (simp_all add: msPerDay_def)
    then have "\<bar>now E - j * msPerDay\<bar> \<le> maxTime" using hi lo by linarith
    moreover have "tza_local E (now E + tza_utc E (now E) - j * msPerDay) = tza_utc E (now E)"
      using same that by simp
    ultimately show ?thesis by (simp add: shifted_no_change TimeClip_def)
  qed
  then have valid: "dates_valid E days" by (simp add: dates_valid_iff)
  have gen: "generateMockHistoricalData E days k = Inr (ps, Suc k + nat (days + 1))"
    unfolding ps_def f_def b_def by (rule generate_valid [OF valid])
  have df: "date (f j) = Day (now E) - j" if "0 \<le> j" "j \<le> days" for j
    using gen_point_valid [OF sh [OF that], of b "Suc k + nat (days - j)"]
    by (auto simp: f_def Day_shift)
  have "map date ps = map (\<lambda>j. Day (now E) - j) (rev [0..days])"
    unfolding ps_def map_map by (rule map_cong [OF refl]) (simp add: df)
  then have dates: "map date ps = [Day (now E) - days..Day (now E)]"
    using days by (simp add: map_rev_upto)
  have len: "length ps = nat days + 1"
    using days by (simp add: ps_def nat_add_distrib)
  have nth: "date (ps ! j) = Day (now E) - (days - int j)" if "j < length ps" for j
  proof -
    have "date (ps ! j) = map date ps ! j" using that by simp
    also have "\<dots> = Day (now E) - days + int j"
      unfolding dates using that len days by (subst nth_upto) auto
    finally show ?thesis by simp
  qed
  have ne: "ps \<noteq> []" using len by auto
  have h: "date (hd ps) = Day (now E) - days"
    using nth [of 0] ne by (simp add: hd_conv_nth)
  have l: "date (last ps) = Day (now E)"
    using nth [of "length ps - 1"] ne len days by (simp add: last_conv_nth)
  have "sorted_wrt (<) (map date ps)" "distinct (map date ps)"
    unfolding dates by (simp_all add: sorted_wrt_upto)
  with gen dates len nth h l show ?thesis by blast
qed

section \<open>Errors of the generator\<close>

text \<open>
  C8, as stated, fails: a window of 200000000 days moves the Date out of the
  range of \<open>8.64e15\<close> ms around the epoch, the Date becomes invalid and
  \<^verbatim>\<open>toISOString\<close> raises RangeError in the first iteration.
\<close>

theorem generate_raises_on_huge_window:
  "generateMockHistoricalData E_utc 200000000 0 = Inl RangeError"
  by (simp add: gen_defs E_utc_def date_defs)

text \<open>
  C8, amended. \<open>generateMockHistoricalData\<close> raises an error, the RangeError of
  \<^verbatim>\<open>toISOString\<close>, exactly when one of the dates it derives is outside the
  range of Date. Otherwise it returns the empty sequence exactly when \<open>days\<close>
  is negative, and a non-empty sequence for every \<open>days \<ge> 0\<close>.
\<close>

theorem generate_error_free_in_range:
  "(dates_valid E days \<longrightarrow>
      (\<exists>ps k'. generateMockHistoricalData E days k = Inr (ps, k') \<and> (ps = [] \<longleftrightarrow> days < 0))) \<and>
   (\<not> dates_valid E days \<longrightarrow> generateMockHistoricalData E days k = Inl RangeError)"
  by (auto simp: generate_valid generate_invalid)


theorem generate_error_free_in_range_witness:
  "dates_valid E_utc 7 \<and>
   (\<exists>ps k'. generateMockHistoricalData E_utc 7 0 = Inr (ps, k') \<and> (ps = [] \<longleftrightarrow> (7::int) < 0)) \<and>
   \<not> dates_valid E_utc 200000000 \<and>
   generateMockHistoricalData E_utc 200000000 0 = Inl RangeError"
proof -
  have a: "dates_valid E_utc 7"
    by (simp add: dates_valid_def shifted_def E_utc_def date_defs upto_rec1)
  have "shifted E_utc 200000000 = None"
    by (simp add: shifted_def E_utc_def date_defs)
  then have b: "\<not> dates_valid E_utc 200000000"
    by (auto simp: dates_valid_iff intro!: exI [of _ 200000000])
  show ?thesis
    using a b generate_error_free_in_range [of E_utc 7 0]
      generate_error_free_in_range [of E_utc 200000000 0] by simp
qed

section \<open>The history window of the presentation layer\<close>

text \<open>
  C10. \<open>loadHistoricalData\<close> maps the period '7d' to 7 days, '30d' to 30 days
  and every other value to 90 days, and, on a host whose clock is at least 92
  days inside the range of Date and whose zone offsets are at most a day, the
  history it stores has 8, 31 or 91 points.
\<close>

theorem loadHistoricalData_window:
  assumes "\<forall>t. \<bar>tza_utc E t\<bar> \<le> msPerDay" and "\<forall>t. \<bar>tza_local E t\<bar> \<le> msPerDay"
    and "\<bar>now E\<bar> + 92 * msPerDay \<le> maxTime"
  shows "period_days ''7d'' = 7 \<and> period_days ''30d'' = 30 \<and> period_days ''90d'' = 90 \<and>
         (p \<noteq> ''7d'' \<and> p \<noteq> ''30d'' \<longrightarrow> period_days p = 90) \<and>
         (\<exists>s' k'. loadHistoricalData E k s = Inr (s', k') \<and>
            length (historicalData s') = nat (period_days (chartPeriod s)) + 1 \<and>
            length (historicalData s') \<in> {8, 31, 91})"
proof -
  have d: "0 \<le> period_days (chartPeriod s)" "period_days (chartPeriod s) \<le> 90"
    by (simp_all add: period_days_def)
  then have "\<bar>now E\<bar> + (period_days (chartPeriod s) + 2) * msPerDay \<le> maxTime"
    using assms(3) by (simp add: msPerDay_def)
  then have valid: "dates_valid E (period_days (chartPeriod s))"
    using assms(1,2) by (rule dates_valid_sane [rotated 2])
  have len: "nat (period_days (chartPeriod s)) + 1 \<in> {8, 31, 91}"
    by (simp add: period_days_def)
  obtain ps k' where gen: "generateMockHistoricalData E (period_days (chartPeriod s)) k = Inr (ps, k')"
    and ps: "length ps = nat (period_days (chartPeriod s)) + 1"
    using d by (simp add: generate_valid [OF valid] nat_add_distrib)
  have "loadHistoricalData E k s = Inr (s\<lparr>historicalData := ps\<rparr>, k')"
    by (simp add: loadHistoricalData_def gen)
  moreover have "length (historicalData (s\<lparr>historicalData := ps\<rparr>)) = nat (period_days (chartPeriod s)) + 1"
    by (simp add: ps)
  moreover have "period_days ''7d'' = 7 \<and> period_days ''30d'' = 30 \<and> period_days ''90d'' = 90 \<and>
         (p \<noteq> ''7d'' \<and> p \<noteq> ''30d'' \<longrightarrow> period_days p = 90)"
    by (simp add: period_days_def)
  ultimately show ?thesis using len by metis
qed

theorem loadHistoricalData_window_witness:
  "(\<forall>t. \<bar>tza_utc E_utc t\<bar> \<le> msPerDay) \<and> (\<forall>t. \<bar>tza_local E_utc t\<bar> \<le> msPerDay) \<and>
   \<bar>now E_utc\<bar> + 92 * msPerDay \<le> maxTime \<and>
   ''1y'' \<noteq> ''7d'' \<and> ''1y'' \<noteq> ''30d'' \<and> period_days ''1y'' = 90 \<and>
   (\<exists>s' k'. loadHistoricalData E_utc 0 initial_state = Inr (s', k') \<and>
      length (historicalData s') = nat (period_days (chartPeriod initial_state)) + 1 \<and>
      length (historicalData s') \<in> {8, 31, 91})"
proof -
  have a: "\<forall>t. \<bar>tza_utc E_utc t\<bar> \<le> msPerDay" "\<forall>t. \<bar>tza_local E_utc t\<bar> \<le> msPerDay"
    "\<bar>now E_utc\<bar> + 92 * msPerDay \<le> maxTime"
    by (simp_all add: E_utc_def msPerDay_def maxTime_def)
  show ?thesis
    using a loadHistoricalData_window [OF a, of "''1y''" 0 initial_state] by simp
qed

section \<open>The mock exchange rate\<close>

text \<open>
  C5. For every value that \<^verbatim>\<open>Math.random\<close> can return, the mock rate of
  \<open>fetchExchangeRate\<close>, which it stores as \<open>exchangeRate\<close>, is a finite number
  in the half-open interval \<open>[0.5, 2)\<close>.
\<close>

theorem mockRate_range:
  assumes "unit_draw (random E k)"
  shows "\<exists>y. mockRate E k = Fin y \<and> 1/2 \<le> y \<and> y < 2 \<and>
             exchangeRate (fst (fetchExchangeRate E k s)) = Some (Fin y)"
  using mock_rate_range [OF assms] by (auto simp: mockRate_def Math_random_def fetchExchangeRate_def)

theorem mockRate_range_witness:
  "unit_draw (random E_utc 0) \<and>
   (\<exists>y. mockRate E_utc 0 = Fin y \<and> 1/2 \<le> y \<and> y < 2 \<and>
        exchangeRate (fst (fetchExchangeRate E_utc 0 initial_state)) = Some (Fin y))"
proof -
  have a: "unit_draw (random E_utc 0)"
    by (simp add: E_utc_def draws_def unit_draw_def is_double_def num_defs)
  show ?thesis using a mockRate_range [OF a, of initial_state] by simp
qed

section \<open>The converted amount\<close>

text \<open>
  C6. Each time the converted amount is recomputed, by \<open>fetchExchangeRate\<close> and
  by the effect on the amount and the rate, it is the product of the amount and
  the rate of the state, a single multiplication with nothing else applied; and
  for the amount 100 and the rate 0.9 that product is exactly 90.
\<close>

theorem convertedAmount_is_product:
  "convertedAmount (fst (fetchExchangeRate E k s)) =
     Some (js_mul (amount (fst (fetchExchangeRate E k s)))
                  (the (exchangeRate (fst (fetchExchangeRate E k s))))) \<and>
   (truthy (exchangeRate s) \<longrightarrow>
      convertedAmount (recompute_effect s) =
        Some (js_mul (amount (recompute_effect s)) (the (exchangeRate (recompute_effect s))))) \<and>
   js_mul (Fin 100) (lit (9/10)) = Fin 90"
proof -
  have "js_mul (Fin 100) (lit (9/10)) = Fin 90" by (simp add: num_defs)
  then show ?thesis by (simp add: fetchExchangeRate_def recompute_effect_def)
qed

theorem convertedAmount_is_product_witness:
  "truthy (exchangeRate (initial_state\<lparr>exchangeRate := Some (lit (9/10))\<rparr>)) \<and>
   convertedAmount (recompute_effect (initial_state\<lparr>exchangeRate := Some (lit (9/10))\<rparr>)) = Some (Fin 90)"
proof -
  have t: "truthy (exchangeRate (initial_state\<lparr>exchangeRate := Some (lit (9/10))\<rparr>))"
    by (simp add: num_defs)
  have "js_mul (amount (recompute_effect (initial_state\<lparr>exchangeRate := Some (lit (9/10))\<rparr>)))
          (the (exchangeRate (recompute_effect (initial_state\<lparr>exchangeRate := Some (lit (9/10))\<rparr>)))) = Fin 90"
    using t by (simp add: recompute_effect_def initial_state_def num_defs)
  then show ?thesis
    using t convertedAmount_is_product [of E_utc 0 "initial_state\<lparr>exchangeRate := Some (lit (9/10))\<rparr>"]
    by simp
qed

section \<open>The rates of the generated history\<close>

lemma to_double_bounded:
  assumes "\<bar>x\<bar> \<le> B" "rnd B = B" "B < 2 ^ 1024"
  shows "to_double x = Fin (rnd x) \<and> \<bar>rnd x\<bar> \<le> B"
proof -
  have "rnd x \<le> B" using rnd_mono [of x B] assms by simp
  moreover have "- B \<le> rnd x" using rnd_mono [of "- B" x] assms by (simp add: rnd_neg)
  ultimately show ?thesis using assms(3) by (simp add: to_double_fin)
qed

lemma rnd_pow2_small:
  "rnd 1 = 1" "rnd 2 = 2" "rnd 4 = 4" "rnd 8 = 8" "rnd (1/4) = 1/4" "rnd (2 ^ 53) = 2 ^ 53"
  by (simp_all add: num_defs)

lemma lit_small: "\<bar>c\<bar> \<le> 1 \<Longrightarrow> lit c = Fin (rnd c) \<and> \<bar>rnd c\<bar> \<le> 1"
  unfolding lit_def by (rule to_double_bounded) (simp_all add: rnd_pow2_small)

lemma add_bounded:
  "\<bar>x\<bar> \<le> a \<Longrightarrow> \<bar>y\<bar> \<le> b \<Longrightarrow> a + b \<le> B \<Longrightarrow> rnd B = B \<Longrightarrow> B < 2 ^ 1024 \<Longrightarrow>
   js_add (Fin x) (Fin y) = Fin (rnd (x + y)) \<and> \<bar>rnd (x + y)\<bar> \<le> B"
  using to_double_bounded [of "x + y" B] by simp

lemma mul_bounded:
  "\<bar>x\<bar> \<le> a \<Longrightarrow> \<bar>y\<bar> \<le> b \<Longrightarrow> a * b \<le> B \<Longrightarrow> rnd B = B \<Longrightarrow> B < 2 ^ 1024 \<Longrightarrow>
   js_mul (Fin x) (Fin y) = Fin (rnd (x * y)) \<and> \<bar>rnd (x * y)\<bar> \<le> B"
proof -
  assume a: "\<bar>x\<bar> \<le> a" "\<bar>y\<bar> \<le> b" "a * b \<le> B" and B: "rnd B = B" "B < 2 ^ 1024"
  have "\<bar>x * y\<bar> = \<bar>x\<bar> * \<bar>y\<bar>" by (rule abs_mult)
  also have "\<dots> \<le> a * b" using a(1,2) by (intro mult_mono) simp_all
  finally have "\<bar>x * y\<bar> \<le> B" using a(3) by simp
  then show ?thesis using to_double_bounded [OF _ B] by simp
qed

lemma rate_expr_bounds:
  assumes ok: "env_ok E" and b: "\<bar>bb\<bar> \<le> 2" and i: "0 \<le> i" "i \<le> 2 ^ 53"
  shows "\<exists>v. Math_max (lit (1/10))
               (js_add (Fin bb)
                  (js_mul (js_sub (js_add (Math_sin E (js_mul (Fin (of_int i)) (lit (1/10))))
                                          (Math_random E k))
                                  (lit (5/10)))
                          (lit (5/100)))) = Fin v \<and> rnd (1/10) \<le> v \<and> v \<le> 4"
proof -
  have c1: "lit (1/10) = Fin (rnd (1/10))" "\<bar>rnd (1/10)\<bar> \<le> 1" using lit_small [of "1/10"] by simp_all
  have c5: "lit (5/10) = Fin (rnd (5/10))" "\<bar>rnd (5/10)\<bar> \<le> 1" using lit_small [of "5/10"] by simp_all
  have "rnd (5/100) \<le> rnd (1/4)" "rnd 0 \<le> rnd (5/100)" by (rule rnd_mono, simp)+
  then have c05b: "\<bar>rnd (5/100)\<bar> \<le> 1/4" by (simp add: rnd_pow2_small rnd_zero)
  have c05: "lit (5/100) = Fin (rnd (5/100))" using lit_small [of "5/100"] by simp
  have ib: "\<bar>of_int i :: real\<bar> \<le> 2 ^ 53"
  proof -
    have "(of_int i :: real) \<le> of_int (2 ^ 53)" using i(2) by (simp only: of_int_le_iff)
    then show ?thesis using i(1) by simp
  qed
  define z where "z = rnd (of_int i * rnd (1/10))"
  have z: "js_mul (Fin (of_int i)) (Fin (rnd (1/10))) = Fin z"
    unfolding z_def using mul_bounded [OF ib c1(2) _ rnd_pow2_small(6)] by simp
  define s where "s = msin E z"
  have s: "Math_sin E (Fin z) = Fin s" "\<bar>s\<bar> \<le> 1" using ok by (simp_all add: s_def env_ok_def)
  define u where "u = random E k"
  have "0 \<le> random E k \<and> random E k < 1" using ok by (simp add: env_ok_def unit_draw_def)
  then have u: "Math_random E k = Fin u" "\<bar>u\<bar> \<le> 1"
    by (simp_all add: u_def Math_random_def)
  define a1 where "a1 = rnd (s + u)"
  have a1: "js_add (Fin s) (Fin u) = Fin a1" "\<bar>a1\<bar> \<le> 2"
    unfolding a1_def using add_bounded [OF s(2) u(2), of 2] by (simp_all add: rnd_pow2_small)
  define a2 where "a2 = rnd (a1 + - rnd (5/10))"
  have n5: "\<bar>- rnd (5/10)\<bar> \<le> 1" using c5(2) by simp
  have a2: "js_add (Fin a1) (Fin (- rnd (5/10))) = Fin a2" "\<bar>a2\<bar> \<le> 4"
    unfolding a2_def using add_bounded [OF a1(2) n5, of 4] by (simp_all add: rnd_pow2_small)
  define fl where "fl = rnd (a2 * rnd (5/100))"
  have fl: "js_mul (Fin a2) (Fin (rnd (5/100))) = Fin fl" "\<bar>fl\<bar> \<le> 1"
    unfolding fl_def using mul_bounded [OF a2(2) c05b, of 1] by (simp_all add: rnd_pow2_small)
  define a3 where "a3 = rnd (bb + fl)"
  have a3: "js_add (Fin bb) (Fin fl) = Fin a3" "\<bar>a3\<bar> \<le> 4"
    unfolding a3_def using add_bounded [OF b fl(2), of 4] by (simp_all add: rnd_pow2_small)
  have "Math_max (lit (1/10))
               (js_add (Fin bb)
                  (js_mul (js_sub (js_add (Math_sin E (js_mul (Fin (of_int i)) (lit (1/10))))
                                          (Math_random E k))
                                  (lit (5/10)))
                          (lit (5/100)))) = Fin (max (rnd (1/10)) a3)"
    unfolding c1(1) c5(1) c05 z s(1) u(1) a1(1) js_sub_def js_neg.simps a2(1) fl(1) a3(1)
    by (simp only: Math_max.simps)
  moreover have "rnd (1/10) \<le> max (rnd (1/10)) a3" by simp
  moreover have "max (rnd (1/10)) a3 \<le> 4" using c1(2) a3(2) by linarith
  ultimately show ?thesis by blast
qed

lemma round4_bounds:
  assumes v: "rnd (1/10) \<le> v" "v \<le> 4"
  shows "parseFloat (toFixed 4 (Fin v)) = rounded4 v \<and>
         (\<exists>y. rounded4 v = Fin y \<and> 1/10 \<le> y \<and> y \<le> 8)"
proof -
  have c: "1/10 \<le> rnd (1/10)" by (simp add: num_defs)
  then have v0: "1/10 \<le> v" using v(1) by simp
  define n where "n = \<lfloor>v * 10 ^ 4 + 1/2\<rfloor>"
  have "of_int 1000 \<le> v * 10 ^ 4 + 1/2" using v0 by simp
  then have n1: "1000 \<le> n" unfolding n_def by (simp only: le_floor_iff)
  have "v * 10 ^ 4 + 1/2 < of_int 40001" using v(2) by simp
  then have n2: "n < 40001" unfolding n_def by (simp only: floor_less_iff)
  have rn: "real (nat n) = of_int n" using n1 by simp
  have tf: "toFixed 4 (Fin v) = Fixed False (nat n) 4"
    using v0 v(2) by (simp add: toFixed_def n_def)
  have pf: "parseFloat (toFixed 4 (Fin v)) = rounded4 v"
    unfolding tf rounded4_def n_def [symmetric] by (simp add: rn)
  have lo: "1000 / 10 ^ 4 \<le> (of_int n :: real) / 10 ^ 4"
  proof -
    have "(of_int 1000 :: real) \<le> of_int n" using n1 by (simp only: of_int_le_iff)
    then show ?thesis by (simp add: divide_right_mono)
  qed
  have hi: "(of_int n :: real) / 10 ^ 4 \<le> 8"
  proof -
    have "(of_int n :: real) \<le> of_int 40001" using n2 by (simp only: of_int_le_iff)
    then show ?thesis by simp
  qed
  have e: "rnd (1000 / 10 ^ 4) = rnd (1/10)" by simp
  from rnd_between [OF lo hi e rnd_pow2_small(4)]
  have y: "rnd (1/10) \<le> rnd (of_int n / 10 ^ 4)" "rnd (of_int n / 10 ^ 4) \<le> 8" by simp_all
  then have "to_double (of_int n / 10 ^ 4) = Fin (rnd (of_int n / 10 ^ 4))"
    using c by (intro to_double_fin) simp_all
  then have "rounded4 v = Fin (rnd (of_int n / 10 ^ 4))"
    unfolding rounded4_def n_def [symmetric] .
  then show ?thesis using pf y c by auto
qed

lemma baseRate_range:
  assumes "unit_draw r"
  shows "\<exists>bb. js_add (lit (85/100)) (js_mul (Fin r) (lit (3/10))) = Fin bb \<and>
              rnd (85/100) \<le> bb \<and> bb \<le> rnd (115/100)"
proof -
  have r: "0 \<le> r" "r \<le> 1 - 1 / 2 ^ 53" using assms unit_draw_max by (simp_all add: unit_draw_def)
  define c where "c = rnd (3/10)"
  define d where "d = rnd (85/100)"
  have c: "lit (3/10) = Fin c" "0 \<le> c" "c \<le> 1"
    unfolding c_def using lit_small [of "3/10"] rnd_nonneg [of "3/10"] by simp_all
  have d: "lit (85/100) = Fin d" "0 \<le> d" "d \<le> 1"
    unfolding d_def using lit_small [of "85/100"] rnd_nonneg [of "85/100"] by simp_all
  define t where "t = rnd ((1 - 1 / 2 ^ 53) * c)"
  have "0 \<le> r * c" using r(1) c(2) by simp
  moreover have "r * c \<le> (1 - 1 / 2 ^ 53) * c" using r(2) c(2) by (rule mult_right_mono)
  ultimately have "0 \<le> r * c" "r * c \<le> (1 - 1 / 2 ^ 53) * c" by blast+
  from rnd_between [OF this rnd_zero refl]
  have m: "0 \<le> rnd (r * c)" "rnd (r * c) \<le> t" unfolding t_def by simp_all
  have t1: "t \<le> 1" unfolding t_def c_def by (simp add: num_defs)
  have m1: "to_double (r * c) = Fin (rnd (r * c))"
    using m t1 by (intro to_double_fin) simp_all
  have e1: "rnd (d + 0) = d" unfolding d_def by (simp add: num_defs)
  have e2: "rnd (d + t) = rnd (115/100)" unfolding d_def t_def c_def by (simp add: num_defs)
  have "d + 0 \<le> d + rnd (r * c)" "d + rnd (r * c) \<le> d + t" using m by simp_all
  from rnd_between [OF this e1 e2]
  have b: "d \<le> rnd (d + rnd (r * c))" "rnd (d + rnd (r * c)) \<le> rnd (115/100)" by simp_all
  have "rnd (115/100) \<le> 2" by (simp add: num_defs)
  then have b1: "to_double (d + rnd (r * c)) = Fin (rnd (d + rnd (r * c)))"
    using b d(2) by (intro to_double_fin) simp_all
  have "js_add (lit (85/100)) (js_mul (Fin r) (lit (3/10))) = Fin (rnd (d + rnd (r * c)))"
    unfolding c(1) d(1) by (simp only: js_mul.simps js_add.simps m1 b1)
  then show ?thesis using b unfolding d_def by blast
qed

lemma gen_baseRate_range:
  assumes "env_ok E"
  shows "\<exists>bb. gen_baseRate E k = Fin bb \<and> rnd (85/100) \<le> bb \<and> bb \<le> rnd (115/100) \<and> \<bar>bb\<bar> \<le> 2"
proof -
  have "unit_draw (random E k)" using assms by (simp add: env_ok_def)
  from baseRate_range [OF this] obtain bb where
    bb: "gen_baseRate E k = Fin bb" "rnd (85/100) \<le> bb" "bb \<le> rnd (115/100)"
    unfolding gen_baseRate_def Math_random_def by blast
  have "0 \<le> rnd (85/100)" "rnd (115/100) \<le> 2" by (simp_all add: num_defs)
  then have "\<bar>bb\<bar> \<le> 2" using bb(2,3) by simp
  with bb show ?thesis by blast
qed

lemma gen_point_rate:
  assumes ok: "env_ok E" and b: "\<bar>bb\<bar> \<le> 2" and i: "0 \<le> i" "i \<le> 2 ^ 53"
    and p: "gen_point E (Fin bb) i k = Inr p"
  shows "rate p = spec_rate E bb i (random E k) \<and>
         (\<exists>y m. rate p = Fin y \<and> 1/10 \<le> y \<and> rate p = lit (real_of_int m / 10 ^ 4))"
proof -
  from rate_expr_bounds [OF ok b i, of k] obtain v where
    v: "Math_max (lit (1/10))
               (js_add (Fin bb)
                  (js_mul (js_sub (js_add (Math_sin E (js_mul (Fin (of_int i)) (lit (1/10))))
                                          (Math_random E k))
                                  (lit (5/10)))
                          (lit (5/100)))) = Fin v" and vb: "rnd (1/10) \<le> v" "v \<le> 4"
    by blast
  from round4_bounds [OF vb] obtain y where
    pf: "parseFloat (toFixed 4 (Fin v)) = rounded4 v" and y: "rounded4 v = Fin y" "1/10 \<le> y"
    by blast
  have r: "rate p = parseFloat (toFixed 4 (Fin v))"
    using p unfolding gen_point_def Let_def v by (auto split: sum.splits)
  have s: "spec_rate E bb i (random E k) = rounded4 v"
    using v unfolding spec_rate_def Math_random_def by simp
  have l: "rate p = lit (real_of_int \<lfloor>v * 10 ^ 4 + 1/2\<rfloor> / 10 ^ 4)"
    unfolding r pf rounded4_def lit_def ..
  have "rate p = spec_rate E bb i (random E k)" unfolding r pf s ..
  moreover have "rate p = Fin y" unfolding r pf y(1) ..
  ultimately show ?thesis using y(2) l by blast
qed

lemma generate_points:
  assumes "generateMockHistoricalData E days k = Inr (ps, k')" and "p \<in> set ps"
  shows "\<exists>j kk. 0 \<le> j \<and> j \<le> days \<and> gen_point E (gen_baseRate E k) j kk = Inr p"
proof (cases "dates_valid E days")
  case False
  then show ?thesis using assms(1) by (simp add: generate_invalid)
next
  case True
  from assms generate_valid [OF True, of k]
  obtain j where j: "j \<in> set (rev [0..days])"
    and pj: "p = projr (gen_point E (gen_baseRate E k) j (Suc k + nat (days - j)))"
    by auto
  have jr: "0 \<le> j" "j \<le> days" using j by simp_all
  then have "shifted E j \<noteq> None" using True by (simp add: dates_valid_iff)
  then obtain t where "shifted E j = Some t" by auto
  from gen_point_valid [OF this, of "gen_baseRate E k" "Suc k + nat (days - j)"]
  obtain q where "gen_point E (gen_baseRate E k) j (Suc k + nat (days - j)) = Inr q" by blast
  then show ?thesis using pj jr by auto
qed

lemma env_ok_utc: "env_ok E_utc"
proof -
  have d: "unit_draw (draws k)" for k
    by (simp add: draws_def unit_draw_def is_double_def num_defs)
  have s: "is_double (sin_table x) \<and> \<bar>sin_table x\<bar> \<le> 1" for x
    by (simp add: sin_table_def is_double_def num_defs)
  show ?thesis using d s by (simp add: env_ok_def E_utc_def)
qed

lemma rev_upto_nth: "n < nat (days + 1) \<Longrightarrow> rev [0..days] ! n = days - int n"
proof -
  assume n: "n < nat (days + 1)"
  then have le: "int n \<le> days" by linarith
  have len: "length [0..days] = nat (days + 1)" by simp
  have m: "nat (days + 1) - Suc n = nat (days - int n)" using le by linarith
  have "rev [0..days] ! n = [0..days] ! (length [0..days] - Suc n)"
    using n by (intro rev_nth) simp
  also have "\<dots> = [0..days] ! nat (days - int n)" unfolding len m ..
  also have "\<dots> = 0 + int (nat (days - int n))"
    using le by (intro nth_upto) simp
  also have "\<dots> = days - int n" using le by simp
  finally show ?thesis .
qed

text \<open>
  C2, as stated, fails at the upper end of the interval: for the largest value
  of \<^verbatim>\<open>Math.random\<close>, \<open>1 - 2^-52\<close>, the sum \<open>0.85 + r * 0.3\<close> rounds to
  \<open>1.15\<close> itself, so the base rate is not below \<open>1.15\<close>.
\<close>

theorem baseRate_reaches_upper_end:
  "unit_draw (random E_top 0) \<and> gen_baseRate E_top 0 = lit (115/100) \<and>
   \<not> js_lt (gen_baseRate E_top 0) (lit (115/100))"
  by (simp add: E_top_def E_utc_def unit_draw_def is_double_def gen_baseRate_def Math_random_def num_defs)

text \<open>
  C2, amended. \<open>generateMockHistoricalData\<close> draws one base rate per call,
  \<open>0.85 + r * 0.3\<close> for the first value \<open>r\<close> of \<^verbatim>\<open>Math.random\<close>, which lies
  in the closed range from \<open>0.85\<close> (reached for \<open>r = 0\<close>) to \<open>1.15\<close>; and for
  each counter \<open>i\<close> from \<open>days\<close> down to \<open>0\<close> the rate of the point it pushes
  is \<open>max(0.1, baseRate + (sin(i * 0.1) + u - 0.5) * 0.05)\<close> rounded to 4
  decimal places, where \<open>u\<close> is the next value of \<^verbatim>\<open>Math.random\<close>, one for
  each point. The window is a safe integer and no Date of it is invalid.
\<close>

theorem generate_rates_formula:
  assumes ok: "env_ok E" and d0: "0 \<le> days" and d1: "days \<le> 2 ^ 53" and valid: "dates_valid E days"
  shows "\<exists>b ps. gen_baseRate E k = Fin b \<and>
           gen_baseRate E k = js_add (lit (85/100)) (js_mul (Fin (random E k)) (lit (3/10))) \<and>
           js_add (lit (85/100)) (js_mul (Fin 0) (lit (3/10))) = lit (85/100) \<and>
           lit (85/100) = Fin (rnd (85/100)) \<and> lit (115/100) = Fin (rnd (115/100)) \<and>
           rnd (85/100) \<le> b \<and> b \<le> rnd (115/100) \<and>
           generateMockHistoricalData E days k = Inr (ps, k + nat days + 2) \<and>
           length ps = nat days + 1 \<and>
           (\<forall>j<length ps. rate (ps ! j) = spec_rate E b (days - int j) (random E (k + 1 + j)))"
proof -
  from gen_baseRate_range [OF ok, of k] obtain b where
    b: "gen_baseRate E k = Fin b" "rnd (85/100) \<le> b" "b \<le> rnd (115/100)" "\<bar>b\<bar> \<le> 2" by blast
  define f where "f = (\<lambda>j. projr (gen_point E (gen_baseRate E k) j (Suc k + nat (days - j))))"
  define ps where "ps = map f (rev [0..days])"
  have gen: "generateMockHistoricalData E days k = Inr (ps, k + nat days + 2)"
    using generate_valid [OF valid, of k] d0 unfolding ps_def f_def by (simp add: nat_add_distrib)
  have len: "length ps = nat days + 1" using d0 by (simp add: ps_def nat_add_distrib)
  have r: "rate (ps ! j) = spec_rate E b (days - int j) (random E (k + 1 + j))" if j: "j < length ps" for j
  proof -
    have jn: "j < nat (days + 1)" using j len d0 by (simp add: nat_add_distrib)
    define i where "i = days - int j"
    have i: "0 \<le> i" "i \<le> days" "i \<le> 2 ^ 53" using jn d1 by (simp_all add: i_def)
    have kk: "Suc k + nat (days - i) = k + 1 + j" by (simp add: i_def)
    have "ps ! j = f (rev [0..days] ! j)" using jn unfolding ps_def by (intro nth_map) simp
    then have pj: "ps ! j = f i" using rev_upto_nth [OF jn] by (simp add: i_def)
    have "shifted E i \<noteq> None" using valid i by (simp add: dates_valid_iff)
    then obtain t where "shifted E i = Some t" by auto
    from gen_point_valid [OF this, of "gen_baseRate E k" "k + 1 + j"]
    obtain q where q: "gen_point E (Fin b) i (k + 1 + j) = Inr q" unfolding b(1) by blast
    have "f i = q" unfolding f_def kk b(1) q by simp
    then show ?thesis
      using gen_point_rate [OF ok b(4) i(1) i(3) q] pj unfolding i_def by simp
  qed
  have l0: "js_add (lit (85/100)) (js_mul (Fin 0) (lit (3/10))) = lit (85/100)"
    by (simp add: num_defs)
  have l1: "lit (85/100) = Fin (rnd (85/100))" "lit (115/100) = Fin (rnd (115/100))"
    by (simp_all add: num_defs)
  have "gen_baseRate E k = js_add (lit (85/100)) (js_mul (Fin (random E k)) (lit (3/10)))"
    by (simp add: gen_baseRate_def Math_random_def)
  with b gen len r l0 l1 show ?thesis by blast
qed

theorem generate_rates_formula_witness:
  "env_ok E_utc \<and> (0::int) \<le> 1 \<and> (1::int) \<le> 2 ^ 53 \<and> dates_valid E_utc 1 \<and>
   (\<exists>b ps. gen_baseRate E_utc 0 = Fin b \<and>
           gen_baseRate E_utc 0 = js_add (lit (85/100)) (js_mul (Fin (random E_utc 0)) (lit (3/10))) \<and>
           js_add (lit (85/100)) (js_mul (Fin 0) (lit (3/10))) = lit (85/100) \<and>
           lit (85/100) = Fin (rnd (85/100)) \<and> lit (115/100) = Fin (rnd (115/100)) \<and>
           rnd (85/100) \<le> b \<and> b \<le> rnd (115/100) \<and>
           generateMockHistoricalData E_utc 1 0 = Inr (ps, 0 + nat 1 + 2) \<and>
           length ps = nat 1 + 1 \<and>
           (\<forall>j<length ps. rate (ps ! j) = spec_rate E_utc b (1 - int j) (random E_utc (0 + 1 + j))))"
proof -
  have v: "dates_valid E_utc 1"
    by (simp add: dates_valid_def shifted_def E_utc_def date_defs upto_rec1)
  have d: "(0::int) \<le> 1" "(1::int) \<le> 2 ^ 53" by simp_all
  show ?thesis
    using env_ok_utc v generate_rates_formula [OF env_ok_utc d v, of 0] by simp
qed

text \<open>
  C4. Every rate is positive: the rate of every point that
  \<open>generateMockHistoricalData\<close> returns is a finite number, at least \<open>0.1\<close>,
  and the double of a decimal numeral with 4 fraction digits; and the mock
  exchange rate of \<open>fetchExchangeRate\<close> is finite and greater than 0.
\<close>

theorem rates_positive:
  assumes ok: "env_ok E" and d: "days \<le> 2 ^ 53"
  shows "(\<forall>ps k' p. generateMockHistoricalData E days k = Inr (ps, k') \<and> p \<in> set ps \<longrightarrow>
            (\<exists>y m. rate p = Fin y \<and> 1/10 \<le> y \<and> rate p = lit (real_of_int m / 10 ^ 4))) \<and>
         (\<exists>y. mockRate E k = Fin y \<and> 0 < y)"
proof (intro conjI allI impI)
  fix ps k' p
  assume a: "generateMockHistoricalData E days k = Inr (ps, k') \<and> p \<in> set ps"
  from generate_points [of E days k ps k' p] a obtain j kk where
    j: "0 \<le> j" "j \<le> days" and g: "gen_point E (gen_baseRate E k) j kk = Inr p" by blast
  from gen_baseRate_range [OF ok, of k] obtain bb where
    bb: "gen_baseRate E k = Fin bb" "\<bar>bb\<bar> \<le> 2" by blast
  have "j \<le> 2 ^ 53" using j(2) d by simp
  from gen_point_rate [OF ok bb(2) j(1) this g [unfolded bb(1)]]
  show "\<exists>y m. rate p = Fin y \<and> 1/10 \<le> y \<and> rate p = lit (real_of_int m / 10 ^ 4)" by blast
next
  have "unit_draw (random E k)" using ok by (simp add: env_ok_def)
  from mock_rate_range [OF this] obtain y where "mockRate E k = Fin y" "1/2 \<le> y"
    unfolding mockRate_def Math_random_def by blast
  then show "\<exists>y. mockRate E k = Fin y \<and> 0 < y" by (intro exI [of _ y]) simp
qed

theorem rates_positive_witness:
  "env_ok E_utc \<and> (1::int) \<le> 2 ^ 53 \<and>
   generateMockHistoricalData E_utc 1 0 =
     Inr ([\<lparr>date = 20759, rate = Fin (8939645260330435 / 9007199254740992), displayDate = 20759\<rparr>,
           \<lparr>date = 20760, rate = Fin (4559894622712627 / 4503599627370496), displayDate = 20760\<rparr>], 3) \<and>
   (\<exists>y m. rate \<lparr>date = 20759, rate = Fin (8939645260330435 / 9007199254740992), displayDate = 20759\<rparr> = Fin y \<and>
      1/10 \<le> y \<and>
      rate \<lparr>date = 20759, rate = Fin (8939645260330435 / 9007199254740992), displayDate = 20759\<rparr> =
        lit (real_of_int m / 10 ^ 4)) \<and>
   (\<exists>y. mockRate E_utc 0 = Fin y \<and> 0 < y)"
proof -
  have g: "generateMockHistoricalData E_utc 1 0 =
     Inr ([\<lparr>date = 20759, rate = Fin (8939645260330435 / 9007199254740992), displayDate = 20759\<rparr>,
           \<lparr>date = 20760, rate = Fin (4559894622712627 / 4503599627370496), displayDate = 20760\<rparr>], 3)"
    by (simp add: gen_defs E_utc_def date_defs num_defs)
  have d: "(1::int) \<le> 2 ^ 53" by simp
  show ?thesis
    using env_ok_utc g rates_positive [OF env_ok_utc d, of 0] by simp
qed

section \<open>The trend of a history\<close>

subsection \<open>The spacing of the doubles\<close>





















end
